theory Spec2Isabelle
  imports Main
begin

section \<open>Errors, actions and map elements\<close>

text \<open>
  The exceptions of the program, as values. \<open>ValueError_population\<close> is the
  \<open>ValueError\<close> raised by \<open>TeamCatcher.__init__\<close>; its two arguments are the
  \<open>population\<close> and \<open>maximum_population\<close> that the message prints.
  \<open>TypeError\<close> is what Python raises for \<open>None += 1\<close>. Three exceptions come
  from the libraries that the constructor calls: \<open>ValueError_shape\<close> is the
  \<open>ValueError\<close> of numpy for an array with a negative dimension, raised when
  \<open>spaces.Box\<close> fills its bounds; \<open>AssertionError\<close> is the assertion of
  \<open>spaces.Discrete\<close> on its count; \<open>ValueError_seed\<close> is the \<open>ValueError\<close>
  of \<open>np.random.seed\<close> for a seed outside \<open>0 .. 2\<^sup>3\<^sup>2 - 1\<close>. The remaining
  constructors are the failures of the engine.
\<close>

datatype error =
    ValueError_population int int
  | TypeError
  | ValueError_shape
  | AssertionError
  | ValueError_seed
  | ConfigurationError_capacity int int
  | ConfigurationError_grid
  | ConfigurationError_agents
  | ValueError_action

text \<open>
  \<open>Actions\<close> and \<open>MapElement\<close> are imported from \<open>game.py\<close>, which is not
  part of the available source. The action codes are those of the docstring of
  \<open>TeamCatcher\<close> (0: NOOP, 1: UP, 2: DOWN, 3: LEFT, 4: RIGHT).
\<close>

datatype Actions = NOOP | UP | DOWN | LEFT | RIGHT

definition NB_ACTIONS :: int where
  "NB_ACTIONS = 5"

text \<open>
  Modelled from the spec: the decoding of an action code by the missing \<open>game.py\<close>;
  a code outside 0..4 is no action.
\<close>

fun action_of_code :: "int \<Rightarrow> Actions option" where
  "action_of_code c =
     (if c = 0 then Some NOOP
      else if c = 1 then Some UP
      else if c = 2 then Some DOWN
      else if c = 3 then Some LEFT
      else if c = 4 then Some RIGHT
      else None)"

text \<open>
  Modelled from the spec: the enumeration \<open>MapElement\<close> of \<open>game.py\<close>, with the
  codes empty=0, agent=1, target=2, mobile=3.
\<close>

datatype MapElement = Empty | Agent | Target | Mobile

text \<open>
  Modelled from the spec: the code of each \<open>MapElement\<close> of the missing \<open>game.py\<close>.
\<close>

fun MapElement_value :: "MapElement \<Rightarrow> int" where
  "MapElement_value Empty = 0"
| "MapElement_value Agent = 1"
| "MapElement_value Target = 2"
| "MapElement_value Mobile = 3"

section \<open>Keys of the per-agent dictionaries\<close>

text \<open>Python's \<open>f"agent_{i+1}"\<close>: the decimal numeral of a natural number.\<close>

definition digit_char :: "nat \<Rightarrow> char" where
  "digit_char d = ''0123456789'' ! d"

function str_nat :: "nat \<Rightarrow> string" where
  "str_nat n = (if n < 10 then [digit_char n] else str_nat (n div 10) @ [digit_char (n mod 10)])"
  by pat_completeness auto
termination
  by (relation "measure id") auto

definition agent_key :: "nat \<Rightarrow> string" where
  "agent_key i = ''agent_'' @ str_nat i"

text \<open>The keys \<open>agent_1\<close>, ..., \<open>agent_n\<close>, as \<open>range(nb_agents)\<close> enumerates them.\<close>

definition agent_keys :: "nat \<Rightarrow> string list" where
  "agent_keys n = map (\<lambda>i. agent_key (Suc i)) [0..<n]"

section \<open>The engine\<close>

text \<open>
  The class \<open>World\<close> lives in \<open>game.py\<close>, which is not part of the available
  source; only its caller \<open>TeamCatcher\<close> is. Everything in this section is
  modelled from the spec.
\<close>

type_synonym pos = "int \<times> int"

text \<open>
  Modelled from the spec: a Target or a Mobile of the missing \<open>game.py\<close>: a position and
  an \<open>alive\<close> flag; its identity is its index in the list that holds it.
\<close>

record entity =
  position :: pos
  alive :: bool

text \<open>
  Modelled from the spec: the state of the missing class \<open>World\<close>: the configuration, the
  agent positions (a dense array, agent \<open>i\<close> at index \<open>i - 1\<close>), the targets and
  mobiles with their flags, the state of the generator that the World owns, the step
  counter and the capture counts of the last step. The occupancy of the grid is read
  off the entity positions.
\<close>

record World =
  w_size :: int
  w_nb_agents :: int
  w_nb_targets :: int
  w_nb_mobiles :: int
  agents :: "pos list"
  targets :: "entity list"
  mobiles :: "entity list"
  rng :: nat
  step_counter :: nat
  capturedTargets :: int
  capturedMobiles :: int

subsection \<open>The generator\<close>

text \<open>
  Modelled from the spec: the generator owned by the missing \<open>World\<close>. The spec fixes no
  algorithm; a linear congruential generator stands in for it, and no result below
  depends on its constants.
\<close>

definition rng_next :: "nat \<Rightarrow> nat" where
  "rng_next r = (1103515245 * r + 12345) mod 2147483648"

text \<open>
  Modelled from the spec: a draw with the generator of the missing \<open>World\<close>: an index below
  \<open>n\<close> and the next state.
\<close>

definition rng_below :: "nat \<Rightarrow> nat \<Rightarrow> nat \<times> nat" where
  "rng_below n r = (rng_next r mod n, rng_next r)"

text \<open>
  Modelled from the spec: seeding of the generator of the missing \<open>World\<close>. An absent seed takes the
  state from the entropy that the caller supplies.
\<close>

definition rng_seed :: "int option \<Rightarrow> nat \<Rightarrow> nat" where
  "rng_seed seed entropy = (case seed of Some s \<Rightarrow> nat \<bar>s\<bar> | None \<Rightarrow> entropy)"

subsection \<open>Position and grid model\<close>

text \<open>
  Modelled from the spec: a position lies in \<open>[0, N - 1]\<^sup>2\<close> (data model of the missing
  \<open>game.py\<close>).
\<close>

definition in_bounds :: "int \<Rightarrow> pos \<Rightarrow> bool" where
  "in_bounds N p = (0 \<le> fst p \<and> fst p < N \<and> 0 \<le> snd p \<and> snd p < N)"

text \<open>
  Modelled from the spec: the cells of the \<open>N \<times> N\<close> grid of the missing \<open>game.py\<close>; none when
  \<open>N \<le> 0\<close>.
\<close>

definition all_cells :: "int \<Rightarrow> pos list" where
  "all_cells N = List.product [0..N - 1] [0..N - 1]"

text \<open>
  Modelled from the spec: the cells of the entities whose \<open>alive\<close> flag is set (missing
  \<open>game.py\<close>); a captured entity is removed from the grid.
\<close>

definition live_positions :: "entity list \<Rightarrow> pos list" where
  "live_positions es = map position (filter alive es)"

text \<open>Modelled from the spec: the cells that hold a live entity of the missing \<open>World\<close>, agents first.\<close>

definition occupied_cells :: "World \<Rightarrow> pos list" where
  "occupied_cells w = agents w @ live_positions (targets w) @ live_positions (mobiles w)"

subsection \<open>Random placement initializer\<close>

text \<open>
  Modelled from the spec: (section 4.1) the sampling of the missing \<open>game.py\<close>: \<open>n\<close> distinct cells
  sampled without replacement. Each draw
  picks one of the remaining cells and removes it. The spec does not say what happens
  when fewer cells remain than are asked for; no sample exists then, and the result is
  \<open>None\<close>.
\<close>

fun sample_cells :: "nat \<Rightarrow> pos list \<Rightarrow> nat \<Rightarrow> (pos list \<times> nat) option" where
  "sample_cells 0 cells r = Some ([], r)"
| "sample_cells (Suc n) cells r =
     (if cells = [] then None
      else
        (let (k, r') = rng_below (length cells) r
         in case sample_cells n (take k cells @ drop (Suc k) cells) r' of
              None \<Rightarrow> None
            | Some (cs, r'') \<Rightarrow> Some (cells ! k # cs, r'')))"

text \<open>
  Modelled from the spec: a target or mobile of the missing \<open>game.py\<close> is created alive.
\<close>

definition new_entity :: "pos \<Rightarrow> entity" where
  "new_entity p = \<lparr>position = p, alive = True\<rparr>"

text \<open>
  Modelled from the spec: (sections 4.1, 4.6) the Initializer of the missing \<open>game.py\<close>. It fails with a ConfigurationError
  carrying the population and the capacity \<open>(grid_size - 1)\<^sup>2\<close> before any sampling
  when the population exceeds the capacity; otherwise it samples the cells and hands
  them out in the fixed order agents, targets, mobiles, with every target and mobile
  alive, the step counter at 0 and no captures. A negative count places no entity, as
  an empty range does.
\<close>

definition Initializer :: "int \<Rightarrow> int \<Rightarrow> int \<Rightarrow> int \<Rightarrow> nat \<Rightarrow> error + World" where
  "Initializer grid_size nb_agents nb_targets nb_mobiles r =
     (let population = nb_agents + nb_targets + nb_mobiles;
          capacity = (grid_size - 1)\<^sup>2
      in if capacity < population then Inl (ConfigurationError_capacity population capacity)
         else
           (case sample_cells (nat nb_agents + nat nb_targets + nat nb_mobiles)
                   (all_cells grid_size) r of
              None \<Rightarrow> Inl ConfigurationError_grid
            | Some (cells, r') \<Rightarrow>
                Inr \<lparr>w_size = grid_size, w_nb_agents = nb_agents,
                     w_nb_targets = nb_targets, w_nb_mobiles = nb_mobiles,
                     agents = take (nat nb_agents) cells,
                     targets = map new_entity
                       (take (nat nb_targets) (drop (nat nb_agents) cells)),
                     mobiles = map new_entity
                       (drop (nat nb_agents + nat nb_targets) cells),
                     rng = r', step_counter = 0,
                     capturedTargets = 0, capturedMobiles = 0\<rparr>))"

text \<open>
  Modelled from the spec: (sections 4.6, 5) construction of the missing class \<open>World\<close> seeds the
  generator that the World owns and runs the Initializer.
\<close>

definition World_new :: "int \<Rightarrow> int \<Rightarrow> int \<Rightarrow> int \<Rightarrow> int option \<Rightarrow> nat \<Rightarrow> error + World" where
  "World_new size' nb_agents nb_targets nb_mobiles seed entropy =
     Initializer size' nb_agents nb_targets nb_mobiles (rng_seed seed entropy)"

text \<open>
  Modelled from the spec: (section 4.6) \<open>reset\<close> of the missing class \<open>World\<close> runs the Initializer
  again, on the stored configuration and the current state of the World's generator.
\<close>

definition World_reset :: "World \<Rightarrow> error + World" where
  "World_reset w =
     Initializer (w_size w) (w_nb_agents w) (w_nb_targets w) (w_nb_mobiles w) (rng w)"

text \<open>Modelled from the spec: (section 4.6) \<open>targetsAlive\<close> of the missing \<open>World\<close>, read by the adapter as
  \<open>nb_targets_alive\<close>: the current count of live targets.\<close>

definition World_nb_targets_alive :: "World \<Rightarrow> int" where
  "World_nb_targets_alive w = int (length (filter alive (targets w)))"

subsection \<open>Action resolver\<close>

text \<open>
  Modelled from the spec: (section 4.2) the unit displacement of an action in the missing
  \<open>game.py\<close>. The spec fixes LEFT
  as a decrease of \<open>x\<close>; UP is taken as a decrease of \<open>y\<close>.
\<close>

fun displacement :: "Actions \<Rightarrow> pos" where
  "displacement NOOP = (0, 0)"
| "displacement UP = (0, - 1)"
| "displacement DOWN = (0, 1)"
| "displacement LEFT = (- 1, 0)"
| "displacement RIGHT = (1, 0)"

text \<open>
  Modelled from the spec: (section 4.2) a position moved by the displacement of an action, in the
  missing \<open>game.py\<close>.
\<close>

definition shift :: "pos \<Rightarrow> Actions \<Rightarrow> pos" where
  "shift p a = (fst p + fst (displacement a), snd p + snd (displacement a))"

text \<open>
  Modelled from the spec: (section 4.2, step 1) the candidate position of an agent in the missing
  \<open>game.py\<close>, clamped to the current
  position when the move leaves the grid.
\<close>

definition candidate :: "int \<Rightarrow> pos \<Rightarrow> Actions \<Rightarrow> pos" where
  "candidate N p a = (if in_bounds N (shift p a) then shift p a else p)"

text \<open>
  Modelled from the spec: (section 4.2, steps 2 and 3) the Action Resolver of the missing
  \<open>game.py\<close>. Agents are processed in ascending id order. A
  candidate is committed only if its cell is not already occupied by an agent already
  committed this step (\<open>committed\<close>, the agents processed so far at the positions
  they now hold) or by a live target or mobile (\<open>others\<close>). Otherwise the agent does
  not move. The cell of an agent that is still to be processed is not among the
  occupants that the rule names.
\<close>

fun resolve_moves :: "int \<Rightarrow> pos list \<Rightarrow> pos list \<Rightarrow> (pos \<times> Actions) list \<Rightarrow> pos list" where
  "resolve_moves N others committed [] = committed"
| "resolve_moves N others committed ((p, a) # rest) =
     (let c = candidate N p a;
          p' = (if c \<in> set committed \<or> c \<in> set others then p else c)
      in resolve_moves N others (committed @ [p']) rest)"

text \<open>
  Modelled from the spec: (sections 4.2, 7) validation of the actions in the missing \<open>game.py\<close>.
  The action mapping must hold exactly the keys
  \<open>agent_1\<close>, ..., \<open>agent_n\<close> (ConfigurationError otherwise) and each code must be one
  of the five actions (ValueError otherwise). The whole mapping is validated before any
  move is applied. The mapping is an association list read as a dictionary.
\<close>

definition validate_actions :: "nat \<Rightarrow> (string \<times> int) list \<Rightarrow> error + Actions list" where
  "validate_actions n actions =
     (if set (map fst actions) \<noteq> set (agent_keys n) then Inl ConfigurationError_agents
      else
        (case those (map (\<lambda>k. Option.bind (map_of actions k) action_of_code) (agent_keys n)) of
           None \<Rightarrow> Inl ValueError_action
         | Some as \<Rightarrow> Inr as))"

subsection \<open>Mobile motion policy\<close>

text \<open>
  Modelled from the spec: (sections 4.3, 4.4) the four cardinal neighbours of a cell, in the missing
  \<open>game.py\<close>.
\<close>

definition neighbours :: "pos \<Rightarrow> pos list" where
  "neighbours p = map (shift p) [UP, DOWN, LEFT, RIGHT]"

text \<open>
  Modelled from the spec: (section 4.3) the Mobile Motion Policy of the missing \<open>game.py\<close>.
  Each live mobile, in turn, moves to one of its four
  neighbours that are in bounds and unoccupied, drawn with the World's generator; it
  stays when none is free. \<open>fixed\<close> holds the cells of the agents (after their moves)
  and of the live targets.
\<close>

fun move_mobiles :: "int \<Rightarrow> pos list \<Rightarrow> entity list \<Rightarrow> entity list \<Rightarrow> nat \<Rightarrow> entity list \<times> nat" where
  "move_mobiles N fixed moved [] r = (moved, r)"
| "move_mobiles N fixed moved (m # ms) r =
     (let free = filter (\<lambda>q. in_bounds N q \<and> q \<notin> set fixed
                           \<and> q \<notin> set (live_positions moved) \<and> q \<notin> set (live_positions ms))
                   (neighbours (position m))
      in if alive m \<and> free \<noteq> [] then
           (let (k, r') = rng_below (length free) r
            in move_mobiles N fixed (moved @ [m\<lparr>position := free ! k\<rparr>]) ms r')
         else move_mobiles N fixed (moved @ [m]) ms r)"

subsection \<open>Capture detector\<close>

text \<open>
  Modelled from the spec: (section 4.4) the number of agents in the 4-neighbourhood of a cell, in
  the missing \<open>game.py\<close>. A live target or mobile is captured when at least two agents
  stand in its 4-neighbourhood. All checks read the same agent positions; a captured
  entity loses its \<open>alive\<close> flag, and the captures are counted.
\<close>

definition adjacent_agents :: "pos list \<Rightarrow> pos \<Rightarrow> nat" where
  "adjacent_agents ags p = length (filter (\<lambda>a. a \<in> set (neighbours p)) ags)"

text \<open>
  Modelled from the spec: (section 4.4) the capture condition of the missing \<open>game.py\<close>: alive, with at
  least two agents adjacent.
\<close>

definition captured :: "pos list \<Rightarrow> entity \<Rightarrow> bool" where
  "captured ags e = (alive e \<and> 2 \<le> adjacent_agents ags (position e))"

text \<open>
  Modelled from the spec: (section 4.4) the Capture Detector of the missing \<open>game.py\<close> on one kind of
  entity: the entities after the captures, and the number captured.
\<close>

definition capture :: "pos list \<Rightarrow> entity list \<Rightarrow> entity list \<times> int" where
  "capture ags es =
     (map (\<lambda>e. if captured ags e then e\<lparr>alive := False\<rparr> else e) es,
      int (length (filter (captured ags) es)))"

subsection \<open>Update and state export\<close>

text \<open>
  Modelled from the spec: (section 4.6) \<open>update\<close> of the missing class \<open>World\<close> validates the
  actions, then runs the Action Resolver, the Mobile Motion Policy and the Capture
  Detector in that order, advances the step counter and records the capture counts,
  which the adapter reads as \<open>capturedTargets\<close> and \<open>capturedMobiles\<close>. A failed
  validation changes nothing.
\<close>

definition World_update :: "(string \<times> int) list \<Rightarrow> World \<Rightarrow> error + World" where
  "World_update actions w =
     (case validate_actions (length (agents w)) actions of
        Inl e \<Rightarrow> Inl e
      | Inr as \<Rightarrow>
          (let N = w_size w;
               agents' = resolve_moves N
                           (live_positions (targets w) @ live_positions (mobiles w)) []
                           (zip (agents w) as);
               (moved, r') = move_mobiles N (agents' @ live_positions (targets w)) []
                               (mobiles w) (rng w);
               (targets', ct) = capture agents' (targets w);
               (mobiles', cm) = capture agents' moved
           in Inr (w\<lparr>agents := agents', targets := targets', mobiles := mobiles',
                     rng := r', step_counter := Suc (step_counter w),
                     capturedTargets := ct, capturedMobiles := cm\<rparr>)))"

text \<open>
  The observation dictionary: \<open>map\<close> (here \<open>map_array\<close>), indexed by \<open>x\<close> then
  \<open>y\<close>, and \<open>agent_position\<close>.
\<close>

record Observation =
  map_array :: "int list list"
  agent_position :: "(string \<times> pos) list"

text \<open>
  Modelled from the spec: (section 4.5) the tag of the occupant of a cell, in the missing \<open>game.py\<close>.
\<close>

definition cell_element :: "World \<Rightarrow> pos \<Rightarrow> MapElement" where
  "cell_element w p =
     (if p \<in> set (agents w) then Agent
      else if p \<in> set (live_positions (targets w)) then Target
      else if p \<in> set (live_positions (mobiles w)) then Mobile
      else Empty)"

text \<open>
  Modelled from the spec: (sections 4.5, 6) the State Exporter, read by the adapter as the property
  \<open>get_state\<close> of the missing class \<open>World\<close>.
\<close>

definition get_state :: "World \<Rightarrow> Observation" where
  "get_state w =
     \<lparr>map_array =
        map (\<lambda>x. map (\<lambda>y. MapElement_value (cell_element w (x, y))) [0..w_size w - 1])
          [0..w_size w - 1],
      agent_position = zip (agent_keys (length (agents w))) (agents w)\<rparr>"

section \<open>The gym adapter \<open>TeamCatcher\<close>\<close>

subsection \<open>Spaces\<close>

text \<open>
  The gym spaces that the constructor declares. \<open>Discrete n\<close> holds the integers
  \<open>0, ..., n - 1\<close>; a \<open>Box\<close> holds the arrays of its shape whose entries lie
  between \<open>low\<close> and \<open>high\<close>; a \<open>Tuple\<close> or \<open>Dict\<close> space holds the values whose
  components lie in the component spaces, a dictionary having exactly as many keys as
  its space.
\<close>

datatype Discrete = Discrete int

fun Discrete_contains :: "Discrete \<Rightarrow> int \<Rightarrow> bool" where
  "Discrete_contains (Discrete n) x = (0 \<le> x \<and> x < n)"

record Box =
  low :: int
  high :: int
  shape :: "int \<times> int"

definition Box_contains :: "Box \<Rightarrow> int list list \<Rightarrow> bool" where
  "Box_contains b x =
     (int (length x) = fst (shape b)
      \<and> list_all (\<lambda>row. int (length row) = snd (shape b)
                          \<and> list_all (\<lambda>v. low b \<le> v \<and> v \<le> high b) row) x)"

record ObservationSpace =
  map_space :: Box
  agent_position_space :: "(string \<times> Discrete \<times> Discrete) list"

definition agent_position_contains ::
    "(string \<times> Discrete \<times> Discrete) list \<Rightarrow> (string \<times> pos) list \<Rightarrow> bool" where
  "agent_position_contains spaces x =
     (length x = length spaces
      \<and> list_all (\<lambda>(k, sx, sy).
            case map_of x k of
              None \<Rightarrow> False
            | Some (px, py) \<Rightarrow> Discrete_contains sx px \<and> Discrete_contains sy py) spaces)"

definition observation_space_contains :: "ObservationSpace \<Rightarrow> Observation \<Rightarrow> bool" where
  "observation_space_contains sp x =
     (Box_contains (map_space sp) (map_array x)
      \<and> agent_position_contains (agent_position_space sp) (agent_position x))"

subsection \<open>State of the environment and of the process\<close>

text \<open>
  \<open>rendering.SimpleImageViewer\<close>, created by \<open>render\<close>. A viewer object is always
  truthy in Python, so \<open>if self.viewer\<close> tests for \<open>None\<close>.
\<close>

datatype SimpleImageViewer = SimpleImageViewer (isopen: bool)

record TeamCatcher =
  grid_size :: int
  action_space :: "(string \<times> Discrete) list"
  observation_space :: ObservationSpace
  world :: World
  nb_targets_alive :: int
  obs :: "Observation option"
  viewer :: "SimpleImageViewer option"
  nb_step :: "int option"

text \<open>
  What the adapter touches outside its own object: the generator of numpy that is global
  to the process (\<open>np.random\<close>), here reduced to how it was last seeded, and the
  entropy of the operating system, which seeds a generator that is given no seed.
\<close>

datatype np_random_state = Seeded int | Unseeded nat

record process =
  np_random :: np_random_state
  os_entropy :: nat

subsection \<open>Methods\<close>

text \<open>
  \<open>TeamCatcher.seed\<close>: \<open>np.random.seed(seed)\<close>. numpy accepts an integer seed
  between 0 and \<open>2\<^sup>3\<^sup>2 - 1\<close> and raises \<open>ValueError\<close> for any other, leaving
  its generator as it was; without a seed it takes fresh entropy.
\<close>

definition TeamCatcher_seed :: "int option \<Rightarrow> process \<Rightarrow> error + process" where
  "TeamCatcher_seed seed p =
     (case seed of
        None \<Rightarrow> Inr (p\<lparr>np_random := Unseeded (os_entropy p)\<rparr>)
      | Some s \<Rightarrow>
          if 0 \<le> s \<and> s < 2 ^ 32 then Inr (p\<lparr>np_random := Seeded s\<rparr>)
          else Inl ValueError_seed)"

text \<open>
  The guard that opens \<open>TeamCatcher.__init__\<close>: the exception it raises, if any.
\<close>

definition population_guard :: "int \<Rightarrow> int \<Rightarrow> int \<Rightarrow> int \<Rightarrow> error option" where
  "population_guard grid_size' nb_agents nb_targets nb_mobiles =
     (if (grid_size' - 1)\<^sup>2 < nb_agents + nb_targets then
        (let population = nb_agents + nb_targets + nb_mobiles;
             maximum_population = (grid_size' - 1)\<^sup>2
         in Some (ValueError_population population maximum_population))
      else None)"

text \<open>
  \<open>TeamCatcher.__init__\<close>. The result pairs the state of the process with the
  exception raised or the object built. After the guard the constructor builds its
  spaces: \<open>spaces.Box\<close> with the shape \<open>(grid_size, grid_size)\<close> raises the
  \<open>ValueError\<close> of numpy when \<open>grid_size\<close> is negative, and
  \<open>spaces.Discrete(grid_size - 1)\<close>, built once for each agent, asserts that its
  count is positive. Then it constructs the World, and last it calls \<open>seed\<close>, so
  that an exception of \<open>seed\<close> leaves the generator of the process untouched.
\<close>

definition TeamCatcher_init ::
    "int \<Rightarrow> int \<Rightarrow> int \<Rightarrow> int \<Rightarrow> int option \<Rightarrow> process \<Rightarrow> process \<times> (error + TeamCatcher)" where
  "TeamCatcher_init grid_size' nb_agents nb_targets nb_mobiles seed p =
     (case population_guard grid_size' nb_agents nb_targets nb_mobiles of
        Some e \<Rightarrow> (p, Inl e)
      | None \<Rightarrow>
          if grid_size' < 0 then (p, Inl ValueError_shape)
          else if 0 < nb_agents \<and> grid_size' - 1 \<le> 0 then (p, Inl AssertionError)
          else
            (case World_new grid_size' nb_agents nb_targets nb_mobiles seed (os_entropy p) of
               Inl e \<Rightarrow> (p, Inl e)
             | Inr w \<Rightarrow>
                 (case TeamCatcher_seed seed p of
                    Inl e \<Rightarrow> (p, Inl e)
                  | Inr p' \<Rightarrow>
                      (p',
                       Inr \<lparr>grid_size = grid_size',
                            action_space =
                              map (\<lambda>k. (k, Discrete NB_ACTIONS)) (agent_keys (nat nb_agents)),
                            observation_space =
                              \<lparr>map_space =
                                 \<lparr>low = 0, high = 2, shape = (grid_size', grid_size')\<rparr>,
                               agent_position_space =
                                 map (\<lambda>k. (k, Discrete (grid_size' - 1),
                                             Discrete (grid_size' - 1)))
                                   (agent_keys (nat nb_agents))\<rparr>,
                            world = w,
                            nb_targets_alive = World_nb_targets_alive w,
                            obs = None, viewer = None, nb_step = None\<rparr>))))"

definition compute_reward :: "int \<Rightarrow> int \<Rightarrow> int" where
  "compute_reward capturedTargets' capturedMobiles' = capturedTargets' + 2 * capturedMobiles'"

definition episode_end :: "int \<Rightarrow> bool" where
  "episode_end current_nb_targets_alive = (if current_nb_targets_alive = 0 then True else False)"

type_synonym step_result = "Observation \<times> int \<times> bool \<times> (string \<times> int) list"

text \<open>
  \<open>TeamCatcher.step\<close>. The object is returned in every case: an exception leaves it
  as the statements before the raise have made it.
\<close>

definition step :: "(string \<times> int) list \<Rightarrow> TeamCatcher \<Rightarrow> TeamCatcher \<times> (error + step_result)" where
  "step action self =
     (case World_update action (world self) of
        Inl e \<Rightarrow> (self, Inl e)
      | Inr w \<Rightarrow>
          (let self1 = self\<lparr>world := w, obs := Some (get_state w)\<rparr>;
               reward = compute_reward (capturedTargets w) (capturedMobiles w);
               self2 = self1\<lparr>nb_targets_alive := World_nb_targets_alive w\<rparr>;
               done' = episode_end (nb_targets_alive self2)
           in case nb_step self2 of
                None \<Rightarrow> (self2, Inl TypeError)
              | Some n \<Rightarrow>
                  (let self3 = self2\<lparr>nb_step := Some (n + 1)\<rparr>;
                       info = [(''step'', n + 1), (''target alive'', nb_targets_alive self3)]
                   in (self3, Inr (get_state w, reward, done', info)))))"

text \<open>\<open>TeamCatcher.reset\<close>.\<close>

definition reset :: "TeamCatcher \<Rightarrow> TeamCatcher \<times> (error + Observation)" where
  "reset self =
     (case World_reset (world self) of
        Inl e \<Rightarrow> (self, Inl e)
      | Inr w \<Rightarrow>
          (self\<lparr>world := w, obs := Some (get_state w), nb_step := Some 0,
                nb_targets_alive := World_nb_targets_alive w\<rparr>,
           Inr (get_state w)))"

text \<open>
  \<open>TeamCatcher.close\<close>. The second component lists the viewers on which
  \<open>close()\<close> was called.
\<close>

definition close :: "TeamCatcher \<Rightarrow> TeamCatcher \<times> SimpleImageViewer list" where
  "close self =
     (case viewer self of
        Some v \<Rightarrow> (self\<lparr>viewer := None\<rparr>, [v])
      | None \<Rightarrow> (self, []))"

text \<open>
  A run of successive calls of \<open>step\<close>, one per action mapping, stopping at the first
  exception.
\<close>

fun run_steps ::
    "(string \<times> int) list list \<Rightarrow> TeamCatcher \<Rightarrow> TeamCatcher \<times> (error + step_result list)" where
  "run_steps [] self = (self, Inr [])"
| "run_steps (a # as) self =
     (case step a self of
        (self', Inl e) \<Rightarrow> (self', Inl e)
      | (self', Inr out) \<Rightarrow>
          (case run_steps as self' of
             (self'', Inl e) \<Rightarrow> (self'', Inl e)
           | (self'', Inr outs) \<Rightarrow> (self'', Inr (out # outs))))"

fun info_step :: "step_result \<Rightarrow> int option" where
  "info_step (ob, reward, done', info) = map_of info ''step''"

section \<open>Invariants and reachable states\<close>

definition entity_positions :: "World \<Rightarrow> pos list" where
  "entity_positions w = agents w @ map position (targets w) @ map position (mobiles w)"

text \<open>
  The cells of the live targets and mobiles.
\<close>

definition capturable_cells :: "World \<Rightarrow> pos list" where
  "capturable_cells w = live_positions (targets w) @ live_positions (mobiles w)"

text \<open>
  The grid invariant that every update keeps: every entity, live or captured, has its
  position on the grid, the live targets and mobiles are on pairwise distinct cells,
  and no agent is on the cell of a live target or mobile.
\<close>

definition world_inv :: "World \<Rightarrow> bool" where
  "world_inv w =
     (list_all (in_bounds (w_size w)) (entity_positions w)
      \<and> distinct (capturable_cells w)
      \<and> set (agents w) \<inter> set (capturable_cells w) = {})"

text \<open>
  An action mapping that the engine accepts for \<open>n\<close> agents: exactly the keys
  \<open>agent_1\<close>, ..., \<open>agent_n\<close>, each with one of the five codes.
\<close>

definition valid_actions :: "nat \<Rightarrow> (string \<times> int) list \<Rightarrow> bool" where
  "valid_actions n actions =
     (case validate_actions n actions of Inl e \<Rightarrow> False | Inr as \<Rightarrow> True)"

text \<open>
  A stored configuration on which the Initializer succeeds: the population is within the
  capacity and the grid has a cell for every entity.
\<close>

definition config_ok :: "World \<Rightarrow> bool" where
  "config_ok w =
     (w_nb_agents w + w_nb_targets w + w_nb_mobiles w \<le> (w_size w - 1)\<^sup>2
      \<and> nat (w_nb_agents w) + nat (w_nb_targets w) + nat (w_nb_mobiles w)
          \<le> length (all_cells (w_size w)))"

text \<open>The states of a World: built by the constructor, then reset and updated at will.\<close>

inductive reachable :: "World \<Rightarrow> bool" where
  new: "World_new size' nb_agents nb_targets nb_mobiles seed entropy = Inr w \<Longrightarrow> reachable w"
| reset: "reachable w \<Longrightarrow> World_reset w = Inr w' \<Longrightarrow> reachable w'"
| update: "reachable w \<Longrightarrow> World_update actions w = Inr w' \<Longrightarrow> reachable w'"

text \<open>
  The states of an environment: built by the constructor, then driven by any calls of
  \<open>reset\<close>, \<open>step\<close> and \<open>close\<close>, including calls that raise.
\<close>

inductive reachable_env :: "TeamCatcher \<Rightarrow> bool" where
  init: "TeamCatcher_init grid_size' nb_agents nb_targets nb_mobiles seed p = (p', Inr self)
           \<Longrightarrow> reachable_env self"
| after_reset: "reachable_env self \<Longrightarrow> reachable_env (fst (reset self))"
| after_step: "reachable_env self \<Longrightarrow> reachable_env (fst (step action self))"
| after_close: "reachable_env self \<Longrightarrow> reachable_env (fst (close self))"

text \<open>
  An episode: \<open>in_episode self0 self\<close> holds when \<open>self0\<close> is the state that a
  successful \<open>reset\<close> has left and \<open>self\<close> is reached from it by calls of
  \<open>step\<close> alone, whether they return or raise.
\<close>

inductive in_episode :: "TeamCatcher \<Rightarrow> TeamCatcher \<Rightarrow> bool" where
  start: "reset self = (self0, Inr ob) \<Longrightarrow> in_episode self0 self0"
| next_step: "in_episode self0 self \<Longrightarrow> step action self = (self', res)
                \<Longrightarrow> in_episode self0 self'"

text \<open>
  The states of an environment on which \<open>reset\<close> has never been called: built by the
  constructor, then driven by calls of \<open>step\<close> and \<open>close\<close> only.
\<close>

inductive never_reset :: "TeamCatcher \<Rightarrow> bool" where
  constructed: "TeamCatcher_init grid_size' nb_agents nb_targets nb_mobiles seed p = (p', Inr self)
                  \<Longrightarrow> never_reset self"
| stepped: "never_reset self \<Longrightarrow> never_reset (fst (step action self))"
| closed: "never_reset self \<Longrightarrow> never_reset (fst (close self))"

section \<open>A worked scenario\<close>

text \<open>
  Two agents and one target on a 3 x 3 grid, seed 42. After \<open>reset\<close> the agents stand
  at (2,1) and (2,2) and the target at (0,0); three steps bring the agents to (1,0) and
  (0,1), the two neighbours of the target on the grid, and the third step captures it.
\<close>

definition scenario_process :: process where
  "scenario_process = \<lparr>np_random = Unseeded 0, os_entropy = 0\<rparr>"

definition scenario_world :: World where
  "scenario_world =
     \<lparr>w_size = 3, w_nb_agents = 2, w_nb_targets = 1, w_nb_mobiles = 0,
      agents = [(0, 0), (0, 1)],
      targets = [\<lparr>position = (2, 2), alive = True\<rparr>], mobiles = [],
      rng = 1000676753, step_counter = 0, capturedTargets = 0, capturedMobiles = 0\<rparr>"

definition scenario_env :: TeamCatcher where
  "scenario_env =
     \<lparr>grid_size = 3,
      action_space = [(''agent_1'', Discrete 5), (''agent_2'', Discrete 5)],
      observation_space =
        \<lparr>map_space = \<lparr>low = 0, high = 2, shape = (3, 3)\<rparr>,
         agent_position_space =
           [(''agent_1'', Discrete 2, Discrete 2), (''agent_2'', Discrete 2, Discrete 2)]\<rparr>,
      world = scenario_world,
      nb_targets_alive = 1, obs = None, viewer = None, nb_step = None\<rparr>"

definition scenario_world0 :: World where
  "scenario_world0 =
     scenario_world\<lparr>agents := [(2, 1), (2, 2)],
                    targets := [\<lparr>position = (0, 0), alive = True\<rparr>],
                    rng := 71666532\<rparr>"

definition scenario_world1 :: World where
  "scenario_world1 = scenario_world0\<lparr>agents := [(2, 0), (1, 2)], step_counter := 1\<rparr>"

definition scenario_world2 :: World where
  "scenario_world2 = scenario_world0\<lparr>agents := [(1, 0), (0, 2)], step_counter := 2\<rparr>"

definition scenario_world3 :: World where
  "scenario_world3 =
     scenario_world0\<lparr>agents := [(1, 0), (0, 1)],
                     targets := [\<lparr>position = (0, 0), alive = False\<rparr>],
                     step_counter := 3, capturedTargets := 1\<rparr>"

definition scenario_obs :: "World \<Rightarrow> int list list \<Rightarrow> Observation" where
  "scenario_obs w m =
     \<lparr>map_array = m, agent_position = zip [''agent_1'', ''agent_2''] (agents w)\<rparr>"

definition scenario_obs0 :: Observation where
  "scenario_obs0 = scenario_obs scenario_world0 [[2, 0, 0], [0, 0, 0], [0, 1, 1]]"

definition scenario_obs1 :: Observation where
  "scenario_obs1 = scenario_obs scenario_world1 [[2, 0, 0], [0, 0, 1], [1, 0, 0]]"

definition scenario_obs2 :: Observation where
  "scenario_obs2 = scenario_obs scenario_world2 [[2, 0, 1], [1, 0, 0], [0, 0, 0]]"

definition scenario_obs3 :: Observation where
  "scenario_obs3 = scenario_obs scenario_world3 [[0, 1, 0], [1, 0, 0], [0, 0, 0]]"

definition scenario_env_at :: "World \<Rightarrow> Observation \<Rightarrow> int \<Rightarrow> int \<Rightarrow> TeamCatcher" where
  "scenario_env_at w ob alive' n =
     scenario_env\<lparr>world := w, obs := Some ob, nb_targets_alive := alive', nb_step := Some n\<rparr>"

definition scenario_env0 :: TeamCatcher where
  "scenario_env0 = scenario_env_at scenario_world0 scenario_obs0 1 0"

definition scenario_env1 :: TeamCatcher where
  "scenario_env1 = scenario_env_at scenario_world1 scenario_obs1 1 1"

definition scenario_env2 :: TeamCatcher where
  "scenario_env2 = scenario_env_at scenario_world2 scenario_obs2 1 2"

definition scenario_env3 :: TeamCatcher where
  "scenario_env3 = scenario_env_at scenario_world3 scenario_obs3 0 3"

definition scenario_actions :: "(string \<times> int) list list" where
  "scenario_actions =
     [[(''agent_1'', 1), (''agent_2'', 3)],
      [(''agent_1'', 3), (''agent_2'', 3)],
      [(''agent_1'', 0), (''agent_2'', 1)]]"

text \<open>
  One agent and one mobile on a 3 x 3 grid, seed 6: the environment as constructed and
  the observation that its first \<open>reset\<close> returns.
\<close>

definition mobile_env :: TeamCatcher where
  "mobile_env =
     \<lparr>grid_size = 3,
      action_space = [(''agent_1'', Discrete 5)],
      observation_space =
        \<lparr>map_space = \<lparr>low = 0, high = 2, shape = (3, 3)\<rparr>,
         agent_position_space = [(''agent_1'', Discrete 2, Discrete 2)]\<rparr>,
      world =
        \<lparr>w_size = 3, w_nb_agents = 1, w_nb_targets = 0, w_nb_mobiles = 1,
         agents = [(0, 0)], targets = [],
         mobiles = [\<lparr>position = (1, 2), alive = True\<rparr>],
         rng = 1672197364, step_counter = 0, capturedTargets = 0, capturedMobiles = 0\<rparr>,
      nb_targets_alive = 0, obs = None, viewer = None, nb_step = None\<rparr>"

definition mobile_obs :: Observation where
  "mobile_obs =
     \<lparr>map_array = [[0, 0, 3], [0, 0, 0], [0, 0, 1]],
      agent_position = [(''agent_1'', 2, 2)]\<rparr>"

text \<open>
  A state in which a step captures both a target and a mobile: the agents at (1,0) and
  (0,1) are neighbours of the target at (1,1) and of the mobile at (0,0), which has no
  free neighbour to move to.
\<close>

definition capture_world :: World where
  "capture_world =
     \<lparr>w_size = 3, w_nb_agents = 2, w_nb_targets = 1, w_nb_mobiles = 1,
      agents = [(1, 0), (0, 1)],
      targets = [\<lparr>position = (1, 1), alive = True\<rparr>],
      mobiles = [\<lparr>position = (0, 0), alive = True\<rparr>],
      rng = 7, step_counter = 0, capturedTargets = 0, capturedMobiles = 0\<rparr>"

definition capture_env :: TeamCatcher where
  "capture_env = scenario_env\<lparr>world := capture_world, nb_step := Some 0\<rparr>"


section \<open>Properties of the engine\<close>

subsection \<open>Sampling and the Initializer\<close>

lemma rng_below_less: "0 < n \<Longrightarrow> fst (rng_below n r) < n"
  by (simp add: rng_below_def)

lemma remove_nth_distinct:
  assumes "k < length xs" and "distinct xs"
  shows "distinct (take k xs @ drop (Suc k) xs)"
    and "xs ! k \<notin> set (take k xs @ drop (Suc k) xs)"
proof -
  have "xs = take k xs @ xs ! k # drop (Suc k) xs"
    using assms(1) by (rule id_take_nth_drop)
  then have "distinct (take k xs @ xs ! k # drop (Suc k) xs)"
    using assms(2) by simp
  then show "distinct (take k xs @ drop (Suc k) xs)"
    and "xs ! k \<notin> set (take k xs @ drop (Suc k) xs)"
    by auto
qed

lemma remove_nth_subset: "set (take k xs @ drop (Suc k) xs) \<subseteq> set xs"
  using set_take_subset [of k xs] set_drop_subset [of "Suc k" xs] by auto

lemma sample_cells_props:
  "sample_cells n cells r = Some (cs, r') \<Longrightarrow> distinct cells \<Longrightarrow>
     distinct cs \<and> set cs \<subseteq> set cells \<and> length cs = n"
proof (induction n arbitrary: cells r cs r')
  case 0
  then show ?case by simp
next
  case (Suc n)
  from Suc.prems(1) have ne: "cells \<noteq> []"
    by (auto split: if_splits)
  obtain k r1 where kr: "rng_below (length cells) r = (k, r1)"
    by (cases "rng_below (length cells) r")
  have k: "k < length cells"
    using rng_below_less [of "length cells" r] ne kr by simp
  let ?rest = "take k cells @ drop (Suc k) cells"
  from Suc.prems(1) ne kr obtain cs1 where
    rec: "sample_cells n ?rest r1 = Some (cs1, r')" and cs: "cs = cells ! k # cs1"
    by (auto split: option.splits)
  have d: "distinct ?rest" and nk: "cells ! k \<notin> set ?rest"
    using remove_nth_distinct [OF k Suc.prems(2)] by blast+
  from Suc.IH [OF rec d] have ih: "distinct cs1" "set cs1 \<subseteq> set ?rest" "length cs1 = n"
    by blast+
  have "cells ! k \<in> set cells"
    using k by simp
  with ih nk cs remove_nth_subset [of k cells] show ?case
    by auto
qed

lemma sample_cells_None:
  "sample_cells n cells r = None \<longleftrightarrow> length cells < n"
proof (induction n arbitrary: cells r)
  case 0
  then show ?case by simp
next
  case (Suc n)
  show ?case
  proof (cases "cells = []")
    case True
    then show ?thesis by simp
  next
    case False
    obtain k r1 where kr: "rng_below (length cells) r = (k, r1)"
      by (cases "rng_below (length cells) r")
    have k: "k < length cells"
      using rng_below_less [of "length cells" r] False kr by simp
    have len: "length (take k cells @ drop (Suc k) cells) = length cells - 1"
      using k by simp
    have "sample_cells (Suc n) cells r = None \<longleftrightarrow>
            sample_cells n (take k cells @ drop (Suc k) cells) r1 = None"
      using False kr by (auto split: option.splits)
    also have "\<dots> \<longleftrightarrow> length cells - 1 < n"
      using Suc.IH [of "take k cells @ drop (Suc k) cells" r1] len by simp
    also have "\<dots> \<longleftrightarrow> length cells < Suc n"
      using False by (cases cells) auto
    finally show ?thesis .
  qed
qed

lemma distinct_all_cells: "distinct (all_cells N)"
  by (simp add: all_cells_def distinct_product)

lemma in_bounds_all_cells: "p \<in> set (all_cells N) \<Longrightarrow> in_bounds N p"
  by (auto simp: all_cells_def in_bounds_def)

lemma live_positions_new: "live_positions (map new_entity ps) = ps"
  by (induction ps) (simp_all add: live_positions_def new_entity_def)

lemma positions_new: "map position (map new_entity ps) = ps"
  by (induction ps) (simp_all add: new_entity_def)

lemma split_three: "take a cs @ take t (drop a cs) @ drop (a + t) cs = cs"
proof -
  have e: "drop (a + t) cs = drop t (drop a cs)"
    by (simp add: add.commute)
  show ?thesis
    unfolding e by (simp only: append_take_drop_id)
qed

subsection \<open>The phases of an update\<close>

lemma resolve_moves_length:
  "length (resolve_moves N others committed rest) = length committed + length rest"
  by (induction N others committed rest rule: resolve_moves.induct) (simp_all add: Let_def)

lemma resolve_moves_inv:
  "set (committed @ map fst rest) \<inter> set others = {} \<Longrightarrow>
   list_all (in_bounds N) (committed @ map fst rest) \<Longrightarrow>
   set (resolve_moves N others committed rest) \<inter> set others = {}
   \<and> list_all (in_bounds N) (resolve_moves N others committed rest)"
proof (induction N others committed rest rule: resolve_moves.induct)
  case (1 N others committed)
  then show ?case by simp
next
  case (2 N others committed p a rest)
  define c where "c = candidate N p a"
  define p' where "p' = (if c \<in> set committed \<or> c \<in> set others then p else c)"
  have pb: "in_bounds N p"
    using "2.prems"(2) by simp
  have cb: "in_bounds N c"
    using pb by (simp add: c_def candidate_def)
  have p'b: "in_bounds N p'"
    using pb cb by (simp add: p'_def)
  have p'o: "p' \<notin> set others"
    using "2.prems"(1) by (auto simp: p'_def)
  have d: "set ((committed @ [p']) @ map fst rest) \<inter> set others = {}"
    using "2.prems"(1) p'o by auto
  have b: "list_all (in_bounds N) ((committed @ [p']) @ map fst rest)"
    using "2.prems"(2) p'b by simp
  have "resolve_moves N others committed ((p, a) # rest)
          = resolve_moves N others (committed @ [p']) rest"
    by (simp add: c_def p'_def Let_def)
  with "2.IH" [OF c_def p'_def d b] show ?case
    by simp
qed

lemma live_positions_append:
  "live_positions (xs @ ys) = live_positions xs @ live_positions ys"
  by (simp add: live_positions_def)

lemma live_positions_Nil [simp]: "live_positions [] = []"
  by (simp add: live_positions_def)

lemma live_positions_Cons:
  "live_positions (m # ms) = (if alive m then position m # live_positions ms else live_positions ms)"
  by (simp add: live_positions_def)

lemma move_mobiles_inv:
  "move_mobiles N fixed moved ms r = (res, r') \<Longrightarrow>
   distinct (live_positions moved @ live_positions ms) \<Longrightarrow>
   set fixed \<inter> set (live_positions moved @ live_positions ms) = {} \<Longrightarrow>
   list_all (in_bounds N) (map position (moved @ ms)) \<Longrightarrow>
   distinct (live_positions res)
   \<and> set fixed \<inter> set (live_positions res) = {}
   \<and> list_all (in_bounds N) (map position res)
   \<and> map alive res = map alive (moved @ ms)"
proof (induction N fixed moved ms r arbitrary: res r' rule: move_mobiles.induct)
  case (1 N fixed moved r)
  then show ?case by simp
next
  case (2 N fixed moved m ms r)
  define free where "free = filter (\<lambda>q. in_bounds N q \<and> q \<notin> set fixed
                           \<and> q \<notin> set (live_positions moved) \<and> q \<notin> set (live_positions ms))
                   (neighbours (position m))"
  show ?case
  proof (cases "alive m \<and> free \<noteq> []")
    case True
    obtain k r1 where kr: "rng_below (length free) r = (k, r1)"
      by (cases "rng_below (length free) r")
    have k: "k < length free"
      using rng_below_less [of "length free" r] True kr by simp
    let ?m' = "m\<lparr>position := free ! k\<rparr>"
    have "free ! k \<in> set free"
      using k by simp
    then have q: "in_bounds N (free ! k)" "free ! k \<notin> set fixed"
      "free ! k \<notin> set (live_positions moved)" "free ! k \<notin> set (live_positions ms)"
      by (simp_all add: free_def)
    have step: "move_mobiles N fixed (moved @ [?m']) ms r1 = (res, r')"
      using "2.prems"(1) True kr by (simp add: free_def [symmetric])
    have lm: "live_positions (moved @ [?m']) = live_positions moved @ [free ! k]"
      using True by (simp add: live_positions_def)
    have d: "distinct (live_positions (moved @ [?m']) @ live_positions ms)"
      using "2.prems"(2) q True by (auto simp: lm live_positions_Cons)
    have f: "set fixed \<inter> set (live_positions (moved @ [?m']) @ live_positions ms) = {}"
      using "2.prems"(3) q True by (auto simp: lm live_positions_Cons)
    have b: "list_all (in_bounds N) (map position ((moved @ [?m']) @ ms))"
      using "2.prems"(4) q(1) by simp
    from "2.IH"(1) [OF free_def True refl kr [symmetric] step d f b]
    show ?thesis by simp
  next
    case False
    have step: "move_mobiles N fixed (moved @ [m]) ms r = (res, r')"
      using "2.prems"(1) False by (simp add: free_def [symmetric])
    have d: "distinct (live_positions (moved @ [m]) @ live_positions ms)"
      using "2.prems"(2) by (auto simp: live_positions_append live_positions_Cons)
    have f: "set fixed \<inter> set (live_positions (moved @ [m]) @ live_positions ms) = {}"
      using "2.prems"(3) by (auto simp: live_positions_append live_positions_Cons)
    have b: "list_all (in_bounds N) (map position ((moved @ [m]) @ ms))"
      using "2.prems"(4) by simp
    from "2.IH"(2) [OF free_def False step d f b]
    show ?thesis by simp
  qed
qed

lemma capture_live:
  "map position (filter alive (fst (capture ags es)))
     = map position (filter (\<lambda>e. \<not> captured ags e) (filter alive es))"
  by (induction es) (auto simp: capture_def live_positions_def captured_def)

lemma capture_positions:
  "map position (fst (capture ags es)) = map position es"
  by (induction es) (auto simp: capture_def)

lemma distinct_append_filter:
  "distinct (xs @ map f ys @ zs) \<Longrightarrow> distinct (xs @ map f (filter Q ys) @ zs)"
  by (auto simp: distinct_map_filter)

lemma capture_distinct:
  "distinct (xs @ live_positions es @ zs) \<Longrightarrow>
   distinct (xs @ live_positions (fst (capture ags es)) @ zs)"
  unfolding live_positions_def capture_live by (rule distinct_append_filter)

lemma capture_alive_count:
  "length (filter alive (fst (capture ags es))) \<le> length (filter alive es)"
  by (induction es) (auto simp: capture_def)

lemma capture_subset:
  "set (live_positions (fst (capture ags es))) \<subseteq> set (live_positions es)"
  unfolding live_positions_def capture_live by auto

subsection \<open>The Initializer and the update as a whole\<close>

lemma Initializer_inv:
  assumes "Initializer g a t m r = Inr w"
  shows "distinct (occupied_cells w)" and "world_inv w" and "config_ok w"
    and "length (agents w) = nat a"
proof -
  let ?n = "nat a + nat t + nat m"
  from assms have cap: "a + t + m \<le> (g - 1)\<^sup>2"
    by (auto simp: Initializer_def Let_def split: if_splits)
  from assms cap obtain cells r' where
    sc: "sample_cells ?n (all_cells g) r = Some (cells, r')" and
    w: "w = \<lparr>w_size = g, w_nb_agents = a, w_nb_targets = t, w_nb_mobiles = m,
              agents = take (nat a) cells,
              targets = map new_entity (take (nat t) (drop (nat a) cells)),
              mobiles = map new_entity (drop (nat a + nat t) cells),
              rng = r', step_counter = 0, capturedTargets = 0, capturedMobiles = 0\<rparr>"
    by (auto simp: Initializer_def Let_def split: if_splits option.splits)
  from sample_cells_props [OF sc distinct_all_cells]
  have d: "distinct cells" and sub: "set cells \<subseteq> set (all_cells g)" and len: "length cells = ?n"
    by blast+
  have occ: "occupied_cells w = cells"
    by (simp add: occupied_cells_def w live_positions_new split_three)
  have ent: "entity_positions w = cells"
    by (simp add: entity_positions_def w positions_new split_three del: map_map)
  have b: "list_all (in_bounds g) cells"
    using sub in_bounds_all_cells by (auto simp: list_all_iff)
  from d occ show dw: "distinct (occupied_cells w)"
    by simp
  have "distinct (agents w @ capturable_cells w)"
    using dw by (simp add: occupied_cells_def capturable_cells_def)
  then have "distinct (capturable_cells w)" "set (agents w) \<inter> set (capturable_cells w) = {}"
    by auto
  moreover have "list_all (in_bounds (w_size w)) (entity_positions w)"
    using b by (simp add: ent) (simp add: w)
  ultimately show "world_inv w"
    by (simp add: world_inv_def)
  have "sample_cells ?n (all_cells g) r \<noteq> None"
    using sc by simp
  then have "?n \<le> length (all_cells g)"
    by (simp add: sample_cells_None)
  then show "config_ok w"
    using cap by (simp add: config_ok_def w)
  show "length (agents w) = nat a"
    using len by (simp add: w)
qed

lemma Initializer_total:
  assumes "a + t + m \<le> (g - 1)\<^sup>2"
      and "nat a + nat t + nat m \<le> length (all_cells g)"
  shows "\<exists>w. Initializer g a t m r = Inr w"
proof -
  have "sample_cells (nat a + nat t + nat m) (all_cells g) r \<noteq> None"
    using assms(2) by (simp add: sample_cells_None)
  then show ?thesis
    using assms(1) by (auto simp: Initializer_def Let_def)
qed

lemma World_reset_total: "config_ok w \<Longrightarrow> \<exists>w'. World_reset w = Inr w'"
  unfolding World_reset_def config_ok_def by (rule Initializer_total) simp_all

lemma those_length: "those xs = Some ys \<Longrightarrow> length ys = length xs"
  by (induction xs arbitrary: ys) (auto split: option.splits)

lemma validate_actions_length: "validate_actions n actions = Inr as \<Longrightarrow> length as = n"
  by (auto simp: validate_actions_def agent_keys_def split: if_splits option.splits
           dest: those_length)

lemma World_update_unfold:
  assumes "World_update actions w = Inr w'"
  shows "\<exists>as moved r'.
           validate_actions (length (agents w)) actions = Inr as
         \<and> move_mobiles (w_size w)
               (resolve_moves (w_size w)
                  (live_positions (targets w) @ live_positions (mobiles w)) []
                  (zip (agents w) as) @ live_positions (targets w))
               [] (mobiles w) (rng w) = (moved, r')
         \<and> w' = w\<lparr>agents := resolve_moves (w_size w)
                      (live_positions (targets w) @ live_positions (mobiles w)) []
                      (zip (agents w) as),
                    targets := fst (capture (resolve_moves (w_size w)
                      (live_positions (targets w) @ live_positions (mobiles w)) []
                      (zip (agents w) as)) (targets w)),
                    mobiles := fst (capture (resolve_moves (w_size w)
                      (live_positions (targets w) @ live_positions (mobiles w)) []
                      (zip (agents w) as)) moved),
                    rng := r', step_counter := Suc (step_counter w),
                    capturedTargets := snd (capture (resolve_moves (w_size w)
                      (live_positions (targets w) @ live_positions (mobiles w)) []
                      (zip (agents w) as)) (targets w)),
                    capturedMobiles := snd (capture (resolve_moves (w_size w)
                      (live_positions (targets w) @ live_positions (mobiles w)) []
                      (zip (agents w) as)) moved)\<rparr>"
  using assms
  by (auto simp: World_update_def Let_def split: sum.splits prod.splits)

lemma World_update_total:
  assumes "validate_actions (length (agents w)) actions = Inr as"
  shows "\<exists>w'. World_update actions w = Inr w'"
  using assms by (simp add: World_update_def Let_def split: prod.splits)

lemma World_update_agents_length:
  assumes "World_update actions w = Inr w'"
  shows "length (agents w') = length (agents w)"
proof -
  from World_update_unfold [OF assms] obtain as where
    va: "validate_actions (length (agents w)) actions = Inr as" and
    a: "agents w' = resolve_moves (w_size w)
                      (live_positions (targets w) @ live_positions (mobiles w)) []
                      (zip (agents w) as)"
    by auto
  show ?thesis
    using validate_actions_length [OF va] by (simp add: a resolve_moves_length)
qed

lemma World_update_inv:
  assumes inv: "world_inv w" and upd: "World_update actions w = Inr w'"
  shows "world_inv w'"
proof -
  let ?N = "w_size w"
  let ?T = "live_positions (targets w)"
  let ?M = "live_positions (mobiles w)"
  from World_update_unfold [OF upd] obtain as moved r' where
    va: "validate_actions (length (agents w)) actions = Inr as" and
    mm: "move_mobiles ?N (resolve_moves ?N (?T @ ?M) [] (zip (agents w) as) @ ?T)
           [] (mobiles w) (rng w) = (moved, r')" and
    w': "w' = w\<lparr>agents := resolve_moves ?N (?T @ ?M) [] (zip (agents w) as),
                  targets := fst (capture (resolve_moves ?N (?T @ ?M) [] (zip (agents w) as))
                                   (targets w)),
                  mobiles := fst (capture (resolve_moves ?N (?T @ ?M) [] (zip (agents w) as))
                                   moved),
                  rng := r', step_counter := Suc (step_counter w),
                  capturedTargets := snd (capture (resolve_moves ?N (?T @ ?M) []
                                                     (zip (agents w) as)) (targets w)),
                  capturedMobiles := snd (capture (resolve_moves ?N (?T @ ?M) []
                                                     (zip (agents w) as)) moved)\<rparr>"
    by blast
  let ?A = "resolve_moves ?N (?T @ ?M) [] (zip (agents w) as)"
  have la: "length as = length (agents w)"
    using validate_actions_length [OF va] .
  then have z: "map fst (zip (agents w) as) = agents w"
    by simp
  from inv have dTM: "distinct (?T @ ?M)"
    and aTM: "set (agents w) \<inter> set (?T @ ?M) = {}"
    and b0: "list_all (in_bounds ?N) (agents w)"
    and bT: "list_all (in_bounds ?N) (map position (targets w))"
    and bM: "list_all (in_bounds ?N) (map position (mobiles w))"
    by (simp_all add: world_inv_def capturable_cells_def entity_positions_def)
  have "set ([] @ map fst (zip (agents w) as)) \<inter> set (?T @ ?M) = {}"
    using aTM by (simp only: z append_Nil)
  moreover have "list_all (in_bounds ?N) ([] @ map fst (zip (agents w) as))"
    using b0 by (simp only: z append_Nil)
  ultimately have A: "set ?A \<inter> set (?T @ ?M) = {}" "list_all (in_bounds ?N) ?A"
    using resolve_moves_inv [of "[]" "zip (agents w) as" "?T @ ?M" ?N] by blast+
  have "distinct (live_positions [] @ ?M)"
    using dTM by simp
  moreover have "set (?A @ ?T) \<inter> set (live_positions [] @ ?M) = {}"
    using A(1) dTM by auto
  moreover have "list_all (in_bounds ?N) (map position ([] @ mobiles w))"
    using bM by simp
  ultimately have M: "distinct (live_positions moved)"
    "set (?A @ ?T) \<inter> set (live_positions moved) = {}"
    "list_all (in_bounds ?N) (map position moved)"
    using move_mobiles_inv [OF mm] by blast+
  let ?T' = "live_positions (fst (capture ?A (targets w)))"
  let ?M' = "live_positions (fst (capture ?A moved))"
  have sT: "set ?T' \<subseteq> set ?T" and sM: "set ?M' \<subseteq> set (live_positions moved)"
    by (rule capture_subset)+
  have "distinct ([] @ ?T @ [])"
    using dTM by simp
  then have "distinct ([] @ ?T' @ [])"
    by (rule capture_distinct)
  moreover have "distinct ([] @ live_positions moved @ [])"
    using M(1) by simp
  then have "distinct ([] @ ?M' @ [])"
    by (rule capture_distinct)
  ultimately have d: "distinct (?T' @ ?M')"
    using sT sM M(2) by auto
  have i: "set ?A \<inter> set (?T' @ ?M') = {}"
    using A(1) M(2) sT sM by auto
  have b: "list_all (in_bounds (w_size w')) (entity_positions w')"
    using A(2) bT M(3) by (simp add: entity_positions_def w' capture_positions)
  from d i b show ?thesis
    by (simp add: world_inv_def capturable_cells_def w')
qed

lemma World_update_config:
  assumes "World_update actions w = Inr w'"
  shows "w_size w' = w_size w" "w_nb_agents w' = w_nb_agents w"
    "w_nb_targets w' = w_nb_targets w" "w_nb_mobiles w' = w_nb_mobiles w"
  using World_update_unfold [OF assms] by auto

lemma World_update_targets_alive:
  assumes "World_update actions w = Inr w'"
  shows "World_nb_targets_alive w' \<le> World_nb_targets_alive w"
  using World_update_unfold [OF assms]
  by (auto simp: World_nb_targets_alive_def capture_alive_count)

lemma reachable_inv: "reachable w \<Longrightarrow> world_inv w \<and> config_ok w"
proof (induction rule: reachable.induct)
  case (new size' nb_agents nb_targets nb_mobiles seed entropy w)
  then show ?case
    using Initializer_inv(2,3) by (simp add: World_new_def)
next
  case (reset w w')
  then show ?case
    using Initializer_inv(2,3) by (simp add: World_reset_def)
next
  case (update w actions w')
  then show ?case
    using World_update_inv [of w actions w'] World_update_config [of actions w w']
    by (simp add: config_ok_def)
qed

section \<open>Properties of the adapter\<close>

subsection \<open>The methods of the adapter, case by case\<close>

lemma TeamCatcher_init_Inr:
  assumes "TeamCatcher_init g a t m seed p = (p', Inr self)"
  shows "World_new g a t m seed (os_entropy p) = Inr (world self)"
    and "nb_step self = None"
    and "nb_targets_alive self = World_nb_targets_alive (world self)"
    and "TeamCatcher_seed seed p = Inr p'"
  using assms
  by (auto simp: TeamCatcher_init_def split: option.splits sum.splits if_splits)

lemma episode_end_iff: "episode_end n = (n = 0)"
  by (simp add: episode_end_def)

lemma step_Inr:
  assumes "step action self = (self', Inr (ob, reward, done', info))"
  shows "\<exists>w n. World_update action (world self) = Inr w \<and> nb_step self = Some n
           \<and> self' = self\<lparr>world := w, obs := Some (get_state w),
                            nb_targets_alive := World_nb_targets_alive w,
                            nb_step := Some (n + 1)\<rparr>
           \<and> ob = get_state w
           \<and> reward = capturedTargets w + 2 * capturedMobiles w
           \<and> done' = (World_nb_targets_alive w = 0)
           \<and> info = [(''step'', n + 1), (''target alive'', World_nb_targets_alive w)]"
  using assms
  by (auto simp: step_def Let_def compute_reward_def episode_end_iff
           split: sum.splits option.splits)

lemma step_world:
  assumes "step action self = (self', res)"
  shows "self' = self
         \<or> (World_update action (world self) = Inr (world self')
            \<and> nb_targets_alive self' = World_nb_targets_alive (world self'))"
  using assms
  by (auto simp: step_def Let_def split: sum.splits option.splits)

lemma reset_world:
  assumes "reset self = (self', res)"
  shows "(self' = self \<and> (\<exists>e. World_reset (world self) = Inl e \<and> res = Inl e))
         \<or> (World_reset (world self) = Inr (world self')
            \<and> res = Inr (get_state (world self'))
            \<and> nb_step self' = Some 0
            \<and> nb_targets_alive self' = World_nb_targets_alive (world self'))"
  using assms
  by (auto simp: reset_def split: sum.splits)

lemma close_world: "world (fst (close self)) = world self"
  by (simp add: close_def split: option.splits)

lemma reachable_env_world: "reachable_env self \<Longrightarrow> reachable (world self)"
proof (induction rule: reachable_env.induct)
  case (init g a t m seed p p' self)
  then show ?case
    using TeamCatcher_init_Inr(1) reachable.new by blast
next
  case (after_reset self)
  obtain self' res where r: "reset self = (self', res)"
    by (cases "reset self")
  from reset_world [OF r] after_reset.IH show ?case
    using r reachable.reset by auto
next
  case (after_step self action)
  obtain self' res where s: "step action self = (self', res)"
    by (cases "step action self")
  from step_world [OF s] after_step.IH show ?case
    using s reachable.update by auto
next
  case (after_close self)
  then show ?case
    by (simp add: close_world)
qed

lemma upt_from_one: "[1..<Suc L] = map Suc [0..<L]"
  by (simp add: map_Suc_upt del: upt_Suc)

lemma run_steps_count:
  "nb_step self = Some n \<Longrightarrow> run_steps acts self = (self', Inr outs) \<Longrightarrow>
     map info_step outs = map (\<lambda>k. Some (n + int k)) [1..<Suc (length acts)]
     \<and> nb_step self' = Some (n + int (length acts))"
proof (induction acts arbitrary: self n outs)
  case Nil
  then show ?case by simp
next
  case (Cons a acts)
  from Cons.prems(2) obtain self1 out outs1 where
    s: "step a self = (self1, Inr out)" and
    r: "run_steps acts self1 = (self', Inr outs1)" and
    o: "outs = out # outs1"
    by (auto split: prod.splits sum.splits)
  obtain ob reward d info where out: "out = (ob, reward, d, info)"
    by (cases out)
  from step_Inr [OF s [unfolded out]] Cons.prems(1)
  have n1: "nb_step self1 = Some (n + 1)" and i: "info_step out = Some (n + 1)"
    by (auto simp: out)
  from Cons.IH [OF n1 r]
  have ih: "map info_step outs1 = map (\<lambda>k. Some (n + 1 + int k)) [1..<Suc (length acts)]"
    and fin: "nb_step self' = Some (n + 1 + int (length acts))"
    by blast+
  have "map (\<lambda>k. Some (n + int k)) [1..<Suc (length (a # acts))]
          = map (\<lambda>k. Some (n + int (Suc k))) [0..<Suc (length acts)]"
    unfolding upt_from_one by (simp add: comp_def del: upt_Suc)
  also have "\<dots> = Some (n + 1) # map (\<lambda>k. Some (n + int (Suc k))) [1..<Suc (length acts)]"
    by (simp add: upt_rec [of 0] del: upt_Suc)
  also have "map (\<lambda>k. Some (n + int (Suc k))) [1..<Suc (length acts)]
          = map (\<lambda>k. Some (n + 1 + int k)) [1..<Suc (length acts)]"
    by (simp add: add.assoc add.commute del: upt_Suc)
  finally show ?case
    using ih i fin o by (simp add: add.assoc)
qed

lemma step_returns:
  assumes "nb_step self = Some n"
      and "valid_actions (length (agents (world self))) action"
  shows "\<exists>self' out. step action self = (self', Inr out)
           \<and> length (agents (world self')) = length (agents (world self))"
proof -
  from assms(2) obtain as where
    "validate_actions (length (agents (world self))) action = Inr as"
    by (auto simp: valid_actions_def split: sum.splits)
  then obtain w where w: "World_update action (world self) = Inr w"
    using World_update_total by blast
  then show ?thesis
    using assms(1) World_update_agents_length [OF w]
    by (simp add: step_def Let_def)
qed

lemma run_steps_returns:
  "nb_step self = Some n \<Longrightarrow>
   list_all (valid_actions (length (agents (world self)))) acts \<Longrightarrow>
   \<exists>self' outs. run_steps acts self = (self', Inr outs)"
proof (induction acts arbitrary: self n)
  case Nil
  then show ?case by simp
next
  case (Cons a acts)
  from Cons.prems have va: "valid_actions (length (agents (world self))) a"
    and rest: "list_all (valid_actions (length (agents (world self)))) acts"
    by simp_all
  from step_returns [OF Cons.prems(1) va] obtain self1 out where
    s: "step a self = (self1, Inr out)" and
    l: "length (agents (world self1)) = length (agents (world self))"
    by blast
  obtain ob reward d info where out: "out = (ob, reward, d, info)"
    by (cases out)
  from step_Inr [OF s [unfolded out]] Cons.prems(1)
  have n1: "nb_step self1 = Some (n + 1)"
    by auto
  from Cons.IH [OF n1] rest l obtain self' outs where
    "run_steps acts self1 = (self', Inr outs)"
    by auto
  with s show ?case
    by simp
qed

lemma in_episode_alive:
  "in_episode self0 self \<Longrightarrow>
     nb_targets_alive self = World_nb_targets_alive (world self)
     \<and> nb_targets_alive self \<le> nb_targets_alive self0"
proof (induction rule: in_episode.induct)
  case (start self self0 ob)
  from reset_world [OF start] show ?case by auto
next
  case (next_step self0 self action self' res)
  from step_world [OF next_step.hyps(2)] next_step.IH
  show ?case
    using World_update_targets_alive [of action "world self" "world self'"] by auto
qed

subsection \<open>The scenarios, evaluated\<close>

lemma sample_cells_numeral:
  "sample_cells (numeral j) cells r =
     (if cells = [] then None
      else
        (let (k, r') = rng_below (length cells) r
         in case sample_cells (pred_numeral j) (take k cells @ drop (Suc k) cells) r' of
              None \<Rightarrow> None
            | Some (cs, r'') \<Rightarrow> Some (cells ! k # cs, r'')))"
  by (subst numeral_eq_Suc) (rule sample_cells.simps(2))

lemmas engine_defs = sample_cells_numeral
  World_new_def Initializer_def rng_seed_def all_cells_def rng_below_def rng_next_def
  new_entity_def World_reset_def World_update_def validate_actions_def agent_keys_def
  agent_key_def digit_char_def live_positions_def neighbours_def shift_def candidate_def
  in_bounds_def capture_def captured_def adjacent_agents_def get_state_def cell_element_def
  World_nb_targets_alive_def Let_def upt_rec upto_rec1

lemmas adapter_defs =
  TeamCatcher_init_def population_guard_def TeamCatcher_seed_def NB_ACTIONS_def
  step_def reset_def compute_reward_def episode_end_def

lemmas scenario_defs =
  scenario_process_def scenario_world_def scenario_env_def scenario_world0_def
  scenario_world1_def scenario_world2_def scenario_world3_def scenario_obs_def
  scenario_obs0_def scenario_obs1_def scenario_obs2_def scenario_obs3_def
  scenario_env_at_def scenario_env0_def scenario_env1_def scenario_env2_def
  scenario_env3_def

lemma scenario_init:
  "TeamCatcher_init 3 2 1 0 (Some 42) scenario_process
     = (\<lparr>np_random = Seeded 42, os_entropy = 0\<rparr>, Inr scenario_env)"
  by (simp add: scenario_defs adapter_defs engine_defs)

lemma scenario_reset: "reset scenario_env = (scenario_env0, Inr scenario_obs0)"
  by (simp add: scenario_defs adapter_defs engine_defs)

lemma scenario_step1:
  "step [(''agent_1'', 1), (''agent_2'', 3)] scenario_env0
     = (scenario_env1, Inr (scenario_obs1, 0, False, [(''step'', 1), (''target alive'', 1)]))"
  by (simp add: scenario_defs adapter_defs engine_defs)

lemma scenario_step2:
  "step [(''agent_1'', 3), (''agent_2'', 3)] scenario_env1
     = (scenario_env2, Inr (scenario_obs2, 0, False, [(''step'', 2), (''target alive'', 1)]))"
  by (simp add: scenario_defs adapter_defs engine_defs)

lemma scenario_step3:
  "step [(''agent_1'', 0), (''agent_2'', 1)] scenario_env2
     = (scenario_env3, Inr (scenario_obs3, 1, True, [(''step'', 3), (''target alive'', 0)]))"
  by (simp add: scenario_defs adapter_defs engine_defs)

lemma scenario_run:
  "run_steps scenario_actions scenario_env0
     = (scenario_env3,
        Inr [(scenario_obs1, 0, False, [(''step'', 1), (''target alive'', 1)]),
             (scenario_obs2, 0, False, [(''step'', 2), (''target alive'', 1)]),
             (scenario_obs3, 1, True, [(''step'', 3), (''target alive'', 0)])])"
  by (simp add: scenario_actions_def scenario_step1 scenario_step2 scenario_step3)

lemma mobile_init:
  "TeamCatcher_init 3 1 0 1 (Some 6) scenario_process
     = (\<lparr>np_random = Seeded 6, os_entropy = 0\<rparr>, Inr mobile_env)"
  by (simp add: mobile_env_def scenario_process_def adapter_defs engine_defs)

lemma mobile_reset: "snd (reset mobile_env) = Inr mobile_obs"
  by (simp add: mobile_env_def mobile_obs_def adapter_defs engine_defs)

subsection \<open>The shape of an observation\<close>

text \<open>
  What the State Exporter returns on a reachable World: a square array of the codes 0 to
  3, and one position on the grid for each of the keys \<open>agent_1\<close>, ..., \<open>agent_n\<close>.
\<close>

lemma MapElement_value_range: "MapElement_value e \<in> {0, 1, 2, 3}"
  by (cases e) simp_all

lemma length_agent_keys: "length (agent_keys n) = n"
  by (simp add: agent_keys_def)

lemma get_state_shape:
  assumes "reachable w"
  shows "length (map_array (get_state w)) = nat (w_size w)"
    and "\<forall>row\<in>set (map_array (get_state w)).
           length row = nat (w_size w) \<and> (\<forall>v\<in>set row. v \<in> {0, 1, 2, 3})"
    and "map fst (agent_position (get_state w)) = agent_keys (length (agents w))"
    and "\<forall>p\<in>set (map snd (agent_position (get_state w))). in_bounds (w_size w) p"
proof -
  show "length (map_array (get_state w)) = nat (w_size w)"
    by (simp add: get_state_def)
  show "\<forall>row\<in>set (map_array (get_state w)).
           length row = nat (w_size w) \<and> (\<forall>v\<in>set row. v \<in> {0, 1, 2, 3})"
    using MapElement_value_range by (auto simp: get_state_def)
  show "map fst (agent_position (get_state w)) = agent_keys (length (agents w))"
    by (simp add: get_state_def length_agent_keys)
  have "list_all (in_bounds (w_size w)) (agents w)"
    using reachable_inv [OF assms] by (simp add: world_inv_def entity_positions_def)
  then show "\<forall>p\<in>set (map snd (agent_position (get_state w))). in_bounds (w_size w) p"
    by (simp add: get_state_def length_agent_keys list_all_iff)
qed

section \<open>The claims\<close>

lemma population_guard_iff:
  "population_guard g a t m \<noteq> None \<longleftrightarrow> (g - 1)\<^sup>2 < a + t"
  by (simp add: population_guard_def Let_def)

lemma TeamCatcher_init_population_error:
  "snd (TeamCatcher_init g a t m seed p) = Inl (ValueError_population pop cap)
     \<longleftrightarrow> (g - 1)\<^sup>2 < a + t \<and> pop = a + t + m \<and> cap = (g - 1)\<^sup>2"
  by (auto simp: TeamCatcher_init_def population_guard_def Let_def World_new_def
        Initializer_def TeamCatcher_seed_def
      split: option.splits sum.splits if_splits)

text \<open>
  Claim C1: constructing the environment raises a configuration error if and only if
  \<open>nb_agents + nb_targets + nb_mobiles > (grid_size - 1)\<^sup>2\<close>. The guard of
  \<open>TeamCatcher.__init__\<close> compares the capacity with \<open>nb_agents + nb_targets\<close>
  only, although the population it prints counts the mobiles. For \<open>grid_size = 3\<close>,
  three agents, two targets and \<open>nb_mobiles = -2\<close> the population 3 does not exceed
  the capacity 4, and the constructor raises its population error all the same, with
  the population 3 and the capacity 4, whatever the seed and the state of the process.
  In the other direction, for \<open>grid_size = -1\<close>, two agents, two targets and one
  mobile the population 5 exceeds the capacity 4; the guard lets it pass, and what
  stops the construction is the error of numpy for the negative shape of the map,
  which carries neither number.
\<close>
theorem construction_raises_within_capacity:
  "TeamCatcher_init 3 3 2 (- 2) seed p = (p, Inl (ValueError_population 3 4))
   \<and> \<not> (3 - 1)\<^sup>2 < (3::int) + 2 + (- 2)
   \<and> TeamCatcher_init (- 1) 2 2 1 seed p = (p, Inl ValueError_shape)
   \<and> (- 1 - 1)\<^sup>2 < (2::int) + 2 + 1"
  by (simp add: TeamCatcher_init_def population_guard_def)

text \<open>
  Claim C3: the declared observation space contains every observation that \<open>reset\<close>
  and \<open>step\<close> return, in particular the map value 3 of a mobile and the coordinate
  \<open>grid_size - 1\<close>. The constructor declares the map as a box with \<open>high = 2\<close> and
  each coordinate as \<open>Discrete(grid_size - 1)\<close>, which ends at \<open>grid_size - 2\<close>:
  for \<open>grid_size = 3\<close>, one agent, one mobile and seed 6 the observation of the
  first \<open>reset\<close> has a 3 in its map and the agent at (2,2), and lies outside the
  declared space on both counts.
\<close>
theorem observation_outside_declared_space:
  "snd (TeamCatcher_init 3 1 0 1 (Some 6) scenario_process) = Inr mobile_env
   \<and> snd (reset mobile_env) = Inr mobile_obs
   \<and> observation_space (fst (reset mobile_env)) = observation_space mobile_env
   \<and> \<not> Box_contains (map_space (observation_space mobile_env)) (map_array mobile_obs)
   \<and> \<not> agent_position_contains (agent_position_space (observation_space mobile_env))
         (agent_position mobile_obs)
   \<and> \<not> observation_space_contains (observation_space mobile_env) mobile_obs"
proof -
  have "observation_space (fst (reset mobile_env)) = observation_space mobile_env"
    by (simp add: reset_def split: sum.splits)
  moreover have "\<not> Box_contains (map_space (observation_space mobile_env)) (map_array mobile_obs)"
    by (simp add: mobile_env_def mobile_obs_def Box_contains_def)
  moreover have "\<not> agent_position_contains (agent_position_space (observation_space mobile_env))
         (agent_position mobile_obs)"
    by (simp add: mobile_env_def mobile_obs_def agent_position_contains_def)
  ultimately show ?thesis
    by (simp add: mobile_init mobile_reset observation_space_contains_def)
qed

text \<open>
  Claim C4: the reward that \<open>step\<close> returns is \<open>capturedTargets + 2 * capturedMobiles\<close>,
  the capture counts that the engine reports for that step.
\<close>
theorem step_reward:
  assumes "step action self = (self', Inr (ob, reward, done', info))"
  shows "World_update action (world self) = Inr (world self')
         \<and> reward = capturedTargets (world self') + 2 * capturedMobiles (world self')"
  using step_Inr [OF assms] by auto

lemma capture_step:
  "step [(''agent_1'', 0), (''agent_2'', 0)] capture_env
     = (capture_env\<lparr>world := capture_world\<lparr>targets := [\<lparr>position = (1, 1), alive = False\<rparr>],
                                          mobiles := [\<lparr>position = (0, 0), alive = False\<rparr>],
                                          step_counter := 1,
                                          capturedTargets := 1, capturedMobiles := 1\<rparr>,
                    obs := Some \<lparr>map_array = [[0, 1, 0], [1, 0, 0], [0, 0, 0]],
                                agent_position = [(''agent_1'', 1, 0), (''agent_2'', 0, 1)]\<rparr>,
                    nb_targets_alive := 0, nb_step := Some 1\<rparr>,
        Inr (\<lparr>map_array = [[0, 1, 0], [1, 0, 0], [0, 0, 0]],
              agent_position = [(''agent_1'', 1, 0), (''agent_2'', 0, 1)]\<rparr>,
             3, True, [(''step'', 1), (''target alive'', 0)]))"
  by (simp add: capture_env_def capture_world_def scenario_defs adapter_defs engine_defs)

theorem step_reward_witness:
  "snd (step [(''agent_1'', 0), (''agent_2'', 0)] capture_env)
     = Inr (\<lparr>map_array = [[0, 1, 0], [1, 0, 0], [0, 0, 0]],
              agent_position = [(''agent_1'', 1, 0), (''agent_2'', 0, 1)]\<rparr>,
            3, True, [(''step'', 1), (''target alive'', 0)])
   \<and> capturedTargets (world (fst (step [(''agent_1'', 0), (''agent_2'', 0)] capture_env))) = 1
   \<and> capturedMobiles (world (fst (step [(''agent_1'', 0), (''agent_2'', 0)] capture_env))) = 1
   \<and> (3::int) = 1 + 2 * 1"
  using step_reward [OF capture_step] by (simp add: capture_step)

text \<open>
  Claim C5: the flag that \<open>step\<close> returns is \<open>True\<close> exactly when no target is
  alive after that step.
\<close>
theorem step_done:
  assumes "step action self = (self', Inr (ob, reward, done', info))"
  shows "done' = (nb_targets_alive self' = 0)
         \<and> nb_targets_alive self' = World_nb_targets_alive (world self')"
  using step_Inr [OF assms] by auto

theorem step_done_witness:
  "step [(''agent_1'', 0), (''agent_2'', 1)] scenario_env2
     = (scenario_env3, Inr (scenario_obs3, 1, True, [(''step'', 3), (''target alive'', 0)]))
   \<and> True = (nb_targets_alive scenario_env3 = 0)
   \<and> step [(''agent_1'', 3), (''agent_2'', 3)] scenario_env1
     = (scenario_env2, Inr (scenario_obs2, 0, False, [(''step'', 2), (''target alive'', 1)]))
   \<and> False = (nb_targets_alive scenario_env2 = 0)"
  using step_done [OF scenario_step3] step_done [OF scenario_step2]
    scenario_step3 scenario_step2
  by simp

text \<open>
  Claim C6: on any environment that the constructor has built, \<open>reset\<close> returns, sets
  the step counter to 0 and returns the exported state of the engine; every later
  \<open>step\<close> on an action mapping that the engine accepts returns and advances the
  counter by one, so the \<open>k\<close>-th step after the reset reports \<open>step = k\<close>.
\<close>
theorem reset_then_steps_count:
  assumes "reachable_env self" and "reset self = (self0, res)"
      and "list_all (valid_actions (length (agents (world self0)))) acts"
  shows "res = Inr (get_state (world self0)) \<and> nb_step self0 = Some 0
         \<and> (\<exists>self' outs. run_steps acts self0 = (self', Inr outs)
               \<and> map info_step outs = map (\<lambda>k. Some (int k)) [1..<Suc (length acts)]
               \<and> nb_step self' = Some (int (length acts)))"
proof -
  have "config_ok (world self)"
    using reachable_env_world [OF assms(1)] reachable_inv by blast
  then obtain w where "World_reset (world self) = Inr w"
    using World_reset_total by blast
  with reset_world [OF assms(2)]
  have r: "res = Inr (get_state (world self0))" and n: "nb_step self0 = Some 0"
    by auto
  from run_steps_returns [OF n assms(3)] obtain self' outs where
    run: "run_steps acts self0 = (self', Inr outs)"
    by blast
  from run_steps_count [OF n run] r n run show ?thesis
    by simp
qed

lemma scenario_reachable0: "reachable_env scenario_env"
  using scenario_init by (rule reachable_env.init)

lemma scenario_actions_valid:
  "list_all (valid_actions (length (agents (world scenario_env0)))) scenario_actions"
  by (simp add: scenario_actions_def valid_actions_def scenario_defs engine_defs)

theorem reset_then_steps_count_witness:
  "reachable_env scenario_env
   \<and> reset scenario_env = (scenario_env0, Inr scenario_obs0)
   \<and> list_all (valid_actions (length (agents (world scenario_env0)))) scenario_actions
   \<and> scenario_obs0 = get_state (world scenario_env0)
   \<and> nb_step scenario_env0 = Some 0
   \<and> run_steps scenario_actions scenario_env0
       = (scenario_env3,
          Inr [(scenario_obs1, 0, False, [(''step'', 1), (''target alive'', 1)]),
               (scenario_obs2, 0, False, [(''step'', 2), (''target alive'', 1)]),
               (scenario_obs3, 1, True, [(''step'', 3), (''target alive'', 0)])])
   \<and> map info_step (projr (snd (run_steps scenario_actions scenario_env0)))
       = [Some 1, Some 2, Some 3]
   \<and> nb_step (fst (run_steps scenario_actions scenario_env0)) = Some 3"
  using reset_then_steps_count [OF scenario_reachable0 scenario_reset scenario_actions_valid]
    scenario_reachable0 scenario_reset scenario_actions_valid scenario_run
  by (simp add: scenario_actions_def)

text \<open>
  Claim C7: within an episode the count of live targets that the environment exposes
  never increases from one step to the next, and so never exceeds its value after the
  reset.
\<close>
theorem targets_alive_non_increasing:
  assumes "in_episode self0 self" and "step action self = (self', res)"
  shows "nb_targets_alive self' \<le> nb_targets_alive self
         \<and> nb_targets_alive self \<le> nb_targets_alive self0"
  using in_episode_alive [OF assms(1)]
    in_episode_alive [OF in_episode.next_step [OF assms]]
    step_world [OF assms(2)]
    World_update_targets_alive [of action "world self" "world self'"]
  by auto

lemma scenario_episode2: "in_episode scenario_env0 scenario_env2"
  using in_episode.start [OF scenario_reset] scenario_step1 scenario_step2
  by (blast intro: in_episode.next_step)

theorem targets_alive_non_increasing_witness:
  "in_episode scenario_env0 scenario_env2
   \<and> step [(''agent_1'', 0), (''agent_2'', 1)] scenario_env2
       = (scenario_env3, Inr (scenario_obs3, 1, True, [(''step'', 3), (''target alive'', 0)]))
   \<and> nb_targets_alive scenario_env3 = 0 \<and> nb_targets_alive scenario_env2 = 1
   \<and> nb_targets_alive scenario_env0 = 1 \<and> (0::int) \<le> 1 \<and> (1::int) \<le> 1"
  using targets_alive_non_increasing [OF scenario_episode2 scenario_step3]
    scenario_episode2 scenario_step3
  by (simp add: scenario_env0_def scenario_env2_def scenario_env3_def scenario_env_at_def)








lemma never_reset_nb_step: "never_reset self \<Longrightarrow> nb_step self = None"
proof (induction rule: never_reset.induct)
  case (constructed g a t m seed p p' self)
  then show ?case
    by (rule TeamCatcher_init_Inr(2))
next
  case (stepped self action)
  then show ?case
    by (simp add: step_def Let_def split: sum.splits)
next
  case (closed self)
  then show ?case
    by (simp add: close_def split: option.splits)
qed

lemma scenario_never_reset:
  "never_reset (fst (step [(''agent_1'', 0), (''agent_2'', 0)] (fst (close scenario_env))))"
  using scenario_init
  by (intro never_reset.stepped never_reset.closed) (rule never_reset.constructed)

text \<open>
  Claim C9: on an environment on which \<open>reset\<close> has never been called (newly
  constructed, or driven by \<open>step\<close> and \<open>close\<close> alone since) the step counter
  is \<open>None\<close> and \<open>step\<close> does not return normally, whatever the action: it
  raises what the update of the engine raises, and \<open>TypeError\<close> at the increment of
  the counter when the update succeeds.
\<close>
theorem step_before_reset_raises:
  assumes "never_reset self"
  shows "nb_step self = None
         \<and> snd (step action self)
             = Inl (case World_update action (world self) of
                      Inl e \<Rightarrow> e | Inr w \<Rightarrow> TypeError)"
  using never_reset_nb_step [OF assms]
  by (simp add: step_def Let_def split: sum.splits)

theorem step_before_reset_raises_witness:
  "never_reset (fst (step [(''agent_1'', 0), (''agent_2'', 0)] (fst (close scenario_env))))
   \<and> nb_step (fst (step [(''agent_1'', 0), (''agent_2'', 0)] (fst (close scenario_env)))) = None
   \<and> snd (step [(''agent_1'', 4), (''agent_2'', 0)]
             (fst (step [(''agent_1'', 0), (''agent_2'', 0)] (fst (close scenario_env)))))
       = Inl TypeError
   \<and> snd (step [(''agent_1'', 7), (''agent_2'', 0)]
             (fst (step [(''agent_1'', 0), (''agent_2'', 0)] (fst (close scenario_env)))))
       = Inl ValueError_action"
proof -
  let ?self = "fst (step [(''agent_1'', 0), (''agent_2'', 0)] (fst (close scenario_env)))"
  have w: "world ?self = scenario_world\<lparr>step_counter := 1\<rparr>"
    by (simp add: close_def scenario_defs adapter_defs engine_defs)
  have "\<exists>w. World_update [(''agent_1'', 4), (''agent_2'', 0)]
               (scenario_world\<lparr>step_counter := 1\<rparr>) = Inr w"
    by (simp add: scenario_defs engine_defs)
  moreover have "World_update [(''agent_1'', 7), (''agent_2'', 0)]
                   (scenario_world\<lparr>step_counter := 1\<rparr>) = Inl ValueError_action"
    by (simp add: scenario_defs engine_defs)
  ultimately show ?thesis
    using step_before_reset_raises [OF scenario_never_reset, of "[(''agent_1'', 4), (''agent_2'', 0)]"]
      step_before_reset_raises [OF scenario_never_reset, of "[(''agent_1'', 7), (''agent_2'', 0)]"]
      scenario_never_reset w
    by auto
qed

text \<open>
  Claim C10: \<open>close\<close> is idempotent. After a call the viewer is \<open>None\<close>; a second
  call changes nothing and closes no viewer.
\<close>
theorem close_idempotent:
  "fst (close (fst (close self))) = fst (close self)
   \<and> viewer (fst (close self)) = None
   \<and> snd (close (fst (close self))) = []"
  by (simp add: close_def split: option.splits)

end
